theory Spec2Isabelle
  imports Main "HOL-Library.Word" "HOL-Library.Sublist" "HOL-Library.List_Lexorder"
begin

section \<open>The status checker's pull-request body updater (pull-updater.ts)\<close>

subsection \<open>JavaScript strings\<close>

text \<open>
  A JavaScript string is a finite sequence of UTF-16 code units. Source literals are
  written through \<open>lit\<close>, which embeds an ASCII literal unit by unit; the two emoji
  of the table rows are outside the Basic Multilingual Plane and are spelled as their
  surrogate pairs.
\<close>

type_synonym jsstring = "16 word list"

definition lit :: "string \<Rightarrow> jsstring" where
  "lit s = map of_char s"

text \<open>
  \<open>String.prototype.includes\<close> (the word \<open>includes\<close> is reserved in Isabelle): some
  position of \<open>s\<close> starts a copy of \<open>pat\<close>.
\<close>

fun includes_js :: "'a list \<Rightarrow> 'a list \<Rightarrow> bool" where
  "includes_js [] pat = (pat = [])"
| "includes_js (c # s) pat = (prefix pat (c # s) \<or> includes_js s pat)"

text \<open>
  \<open>String.prototype.endsWith\<close>: the search string is no longer than \<open>s\<close> and equals
  the code units of \<open>s\<close> from position \<open>length s - length pat\<close> to the end.
\<close>

definition endsWith :: "'a list \<Rightarrow> 'a list \<Rightarrow> bool" where
  "endsWith s pat \<longleftrightarrow> length pat \<le> length s \<and> drop (length s - length pat) s = pat"

text \<open>
  \<open>String.prototype.indexOf\<close>: the least position where \<open>pat\<close> starts, \<open>-1\<close> when
  there is none.
\<close>

fun indexOf :: "'a list \<Rightarrow> 'a list \<Rightarrow> int" where
  "indexOf [] pat = (if pat = [] then 0 else - 1)"
| "indexOf (c # s) pat =
     (if prefix pat (c # s) then 0
      else (let r = indexOf s pat in if r = - 1 then - 1 else r + 1))"

text \<open>
  \<open>String.prototype.lastIndexOf\<close>: the greatest position where \<open>pat\<close> starts,
  \<open>-1\<close> when there is none.
\<close>

fun lastIndexOf :: "'a list \<Rightarrow> 'a list \<Rightarrow> int" where
  "lastIndexOf [] pat = (if pat = [] then 0 else - 1)"
| "lastIndexOf (c # s) pat =
     (let r = lastIndexOf s pat in
      if r \<noteq> - 1 then r + 1 else if prefix pat (c # s) then 0 else - 1)"

text \<open>
  \<open>String.prototype.substring(a, b)\<close>: both indices are clamped to the string and
  swapped when out of order; \<open>substring(a)\<close> runs to the end of the string.
\<close>

definition substring :: "'a list \<Rightarrow> int \<Rightarrow> int \<Rightarrow> 'a list" where
  "substring s a b =
     (let n = int (length s);
          a' = min (max a 0) n;
          b' = min (max b 0) n;
          from = min a' b';
          to = max a' b'
      in take (nat (to - from)) (drop (nat from) s))"

definition substringFrom :: "'a list \<Rightarrow> int \<Rightarrow> 'a list" where
  "substringFrom s a = substring s a (int (length s))"

text \<open>
  \<open>String.prototype.replace\<close> with a string pattern: only the first occurrence of
  \<open>pat\<close> is replaced. Both call sites pass the empty replacement, so the \<open>$\<close>
  patterns of a replacement string play no part.
\<close>

fun replace :: "'a list \<Rightarrow> 'a list \<Rightarrow> 'a list \<Rightarrow> 'a list" where
  "replace [] pat rep = (if pat = [] then rep else [])"
| "replace (c # s) pat rep =
     (if prefix pat (c # s) then rep @ drop (length pat) (c # s)
      else c # replace s pat rep)"

text \<open>
  Number-to-string conversion inside a template literal, for the non-negative integers
  a pull-request number ranges over: the decimal digits, most significant first.
\<close>

fun numberToString :: "nat \<Rightarrow> jsstring" where
  "numberToString n =
     (if n < 10 then [of_nat (48 + n)]
      else numberToString (n div 10) @ [of_nat (48 + n mod 10)])"

declare numberToString.simps [simp del]

subsection \<open>The sentinels and the body splicer\<close>

definition PREVIEW_TABLE_START :: jsstring where
  "PREVIEW_TABLE_START = lit ''<!-- PREVIEW-TABLE-START -->''"

definition PREVIEW_TABLE_END :: jsstring where
  "PREVIEW_TABLE_END = lit ''<!-- PREVIEW-TABLE-END -->''"

definition replaceExistingTable :: "jsstring \<Rightarrow> jsstring \<Rightarrow> jsstring" where
  "replaceExistingTable body table =
     (let startIndex = indexOf body PREVIEW_TABLE_START in
      if startIndex = - 1
      then lit ''Unable to parse starting index of existing markdown table.''
      else
        (let endIndex = lastIndexOf body PREVIEW_TABLE_END in
         if endIndex = - 1
         then lit ''Unable to parse ending index of existing markdown table.''
         else
           (let start = substring body 0 (startIndex + int (length PREVIEW_TABLE_START));
                tail = substringFrom body endIndex
            in start @ lit ''\<newline>\<newline>'' @ table @ lit ''\<newline>\<newline>'' @ tail)))"

definition appendTable :: "jsstring \<Rightarrow> jsstring \<Rightarrow> jsstring" where
  "appendTable body table = body @ lit ''\<newline>\<newline>'' @ table"

subsection \<open>Sorting with a comparator, and the insertion-ordered Map\<close>

text \<open>
  \<open>String.prototype.localeCompare\<close> is supplied by the JavaScript host (the collation
  of the process locale) and is not part of the repository, so the table builder takes
  the comparator as the parameter \<open>cmp\<close>. ECMAScript requires \<open>localeCompare\<close> to be
  a consistent comparator on all strings: the sign of \<open>cmp a b\<close> is opposite to the
  sign of \<open>cmp b a\<close>, and "not after" is transitive. It also requires the result
  \<open>0\<close> on canonically equivalent strings, so distinct strings may compare equal.
\<close>

definition consistentComparator :: "('a \<Rightarrow> 'a \<Rightarrow> int) \<Rightarrow> bool" where
  "consistentComparator cmp \<longleftrightarrow>
     (\<forall>a b. (cmp a b < 0) = (0 < cmp b a)) \<and>
     (\<forall>a b c. cmp a b \<le> 0 \<longrightarrow> cmp b c \<le> 0 \<longrightarrow> cmp a c \<le> 0)"

text \<open>
  \<open>Array.prototype.sort\<close> is stable, and with a consistent comparator its result is the
  one stable sorted arrangement of the array, whatever algorithm the host runs. The model
  computes that arrangement by insertion: an element goes in front of the first element it
  is not after, and the array is consumed from its end, so equal elements keep their order.
\<close>

fun insertBy :: "('a \<Rightarrow> 'a \<Rightarrow> int) \<Rightarrow> 'a \<Rightarrow> 'a list \<Rightarrow> 'a list" where
  "insertBy cmp x [] = [x]"
| "insertBy cmp x (y # ys) =
     (if cmp x y \<le> 0 then x # y # ys else y # insertBy cmp x ys)"

definition sort_js :: "('a \<Rightarrow> 'a \<Rightarrow> int) \<Rightarrow> 'a list \<Rightarrow> 'a list" where
  "sort_js cmp xs = foldr (insertBy cmp) xs []"

text \<open>
  A comparator for concrete runs. It orders by UTF-16 code units after composing the
  sequence \<open>e\<close>, U+0301 (combining acute accent) into U+00E9, so it returns \<open>0\<close> on
  the two canonically equivalent spellings of that letter, as ECMAScript requires of
  \<open>localeCompare\<close>.
\<close>

definition compareCodeUnits :: "jsstring \<Rightarrow> jsstring \<Rightarrow> int" where
  "compareCodeUnits a b = (if a < b then - 1 else if b < a then 1 else 0)"

fun composeAcute :: "jsstring \<Rightarrow> jsstring" where
  "composeAcute (a # b # s) =
     (if a = 0x65 \<and> b = 0x301 then 0xE9 # composeAcute s else a # composeAcute (b # s))"
| "composeAcute s = s"

definition compareCanonical :: "jsstring \<Rightarrow> jsstring \<Rightarrow> int" where
  "compareCanonical a b = compareCodeUnits (composeAcute a) (composeAcute b)"

text \<open>
  A \<open>Map\<close> iterates in insertion order; \<open>set\<close> on a key that is present replaces the
  value and leaves the entry where it is.
\<close>

type_synonym ('k, 'v) jsmap = "('k \<times> 'v) list"

fun map_set :: "('k, 'v) jsmap \<Rightarrow> 'k \<Rightarrow> 'v \<Rightarrow> ('k, 'v) jsmap" where
  "map_set [] k v = [(k, v)]"
| "map_set ((k', v') # m) k v =
     (if k' = k then (k', v) # m else (k', v') # map_set m k v)"

subsection \<open>The table builder\<close>

definition toLink :: "nat \<Rightarrow> jsstring \<Rightarrow> jsstring" where
  "toLink prNumber file =
     (let path = replace (replace file (lit ''docs/'') []) (lit ''.md'') []
      in lit ''https://review.learn.microsoft.com/en-us/dotnet/'' @ path
         @ lit ''?branch=pr-en-us-'' @ numberToString prNumber)"

text \<open>The Map \<open>links\<close> after the \<open>forEach\<close> over the sorted array.\<close>

definition links :: "(jsstring \<Rightarrow> jsstring \<Rightarrow> int) \<Rightarrow> nat \<Rightarrow> jsstring list \<Rightarrow> (jsstring, jsstring) jsmap" where
  "links cmp prNumber files =
     foldl (\<lambda>m file. map_set m file (toLink prNumber file)) [] (sort_js cmp files)"

text \<open>
  One table row. The document emoji U+1F4C4 and the link emoji U+1F517 are the surrogate
  pairs \<open>D83D DCC4\<close> and \<open>D83D DD17\<close>.
\<close>

definition tableRow :: "jsstring \<Rightarrow> jsstring \<Rightarrow> jsstring" where
  "tableRow file link =
     lit ''| '' @ [0xD83D, 0xDCC4] @ lit '' _'' @ file @ lit ''_ | '' @ [0xD83D, 0xDD17]
     @ lit '' [Preview: '' @ replace file (lit ''.md'') [] @ lit '']('' @ link
     @ lit '') |\<newline>''"

definition buildMarkdownPreviewTable :: "(jsstring \<Rightarrow> jsstring \<Rightarrow> int) \<Rightarrow> nat \<Rightarrow> jsstring list \<Rightarrow> jsstring" where
  "buildMarkdownPreviewTable cmp prNumber files =
     (let markdownTable = lit ''| File | Preview |\<newline>'';
          markdownTable = markdownTable @ lit ''|:--|:--|\<newline>''
      in foldl (\<lambda>markdownTable (file, link). markdownTable @ tableRow file link)
           markdownTable (links cmp prNumber files))"

subsection \<open>The pull-request snapshot and the change filter\<close>

text \<open>
  Modelled from the spec: the type declarations under \<open>types/\<close> are not among the
  sources. The spec gives the change types ADDED, CHANGED, MODIFIED, DELETED and RENAMED
  and leaves the enumeration open; \<open>OTHER\<close> stands for any further value. The record
  fields are the ones the GraphQL query asks for and the code reads; under their
  TypeScript types \<open>files\<close> and \<open>edges\<close> are never null.
\<close>

datatype ChangeType = ADDED | CHANGED | MODIFIED | DELETED | RENAMED | OTHER jsstring

record FileChange =
  additions :: int
  changeType :: ChangeType
  deletions :: int
  path :: jsstring

record 'a NodeOf =
  node :: 'a

record 'a EdgesOf =
  edges :: "'a NodeOf list"

record Pull =
  body :: jsstring
  changedFiles :: int
  files :: "FileChange EdgesOf"

record Repository =
  pullRequest :: "Pull option"

record Data =
  repository :: "Repository option"

record PullRequestDetails =
  data :: "Data option"

definition isFileModified :: "FileChange NodeOf \<Rightarrow> bool" where
  "isFileModified e \<longleftrightarrow>
     changeType (node e) = ADDED
     \<or> changeType (node e) = CHANGED
     \<or> changeType (node e) = MODIFIED"

text \<open>
  The operands \<open>pr\<close>, \<open>pr.files\<close> and \<open>pr.files.edges\<close> of the conjunction are objects,
  which are truthy.
\<close>

definition isPullRequestModifyingMarkdownFiles :: "Pull \<Rightarrow> bool" where
  "isPullRequestModifyingMarkdownFiles pr \<longleftrightarrow>
     changedFiles pr > 0
     \<and> length (edges (files pr)) > 0
     \<and> list_ex (\<lambda>e. isFileModified e \<and> endsWith (path (node e)) (lit ''.md''))
          (edges (files pr))"

definition getModifiedMarkdownFiles :: "Pull \<Rightarrow> jsstring list" where
  "getModifiedMarkdownFiles pr =
     map (\<lambda>e. path (node e))
       (filter (\<lambda>e. endsWith (path (node e)) (lit ''.md'') \<and> isFileModified e)
          (edges (files pr)))"

subsection \<open>The top-level flow\<close>

text \<open>
  The effects of one run, in order: the log calls of \<open>@actions/core\<close> and the call of
  \<open>octokit.rest.pulls.update\<close> with owner, repository, pull number and body. The two
  awaited calls are inputs of the model: what \<open>getPullRequest\<close> settled to, and what
  the update settles to for a given body. A rejected promise or a thrown error carries
  its message.
\<close>

datatype event =
  StartGroup jsstring
| EndGroup
| Warning jsstring
| Notice jsstring
| PullsUpdate jsstring jsstring nat jsstring

datatype 'a outcome = Throws jsstring | Resolves 'a

record Context =
  owner :: jsstring
  repo :: jsstring
  number :: nat

fun isPullsUpdate :: "event \<Rightarrow> bool" where
  "isPullsUpdate (PullsUpdate _ _ _ _) = True"
| "isPullsUpdate _ = False"

text \<open>\<open>details.data?.repository?.pullRequest\<close>.\<close>

definition pullRequestOf :: "PullRequestDetails \<Rightarrow> Pull option" where
  "pullRequestOf details =
     (case data details of
        None \<Rightarrow> None
      | Some d \<Rightarrow> (case repository d of None \<Rightarrow> None | Some r \<Rightarrow> pullRequest r))"

definition tryUpdatePullRequestBody ::
  "(jsstring \<Rightarrow> jsstring \<Rightarrow> int) \<Rightarrow> Context \<Rightarrow> PullRequestDetails option outcome
     \<Rightarrow> (jsstring \<Rightarrow> int option outcome) \<Rightarrow> event list" where
  "tryUpdatePullRequestBody cmp ctx fetched update =
     (let prNumber = number ctx in
      [StartGroup (lit ''Update pull '' @ numberToString prNumber @ lit '' request body.'')]
      @ (case fetched of
           Throws err \<Rightarrow> [Warning err]
         | Resolves None \<Rightarrow> [Notice (lit ''Unable to get the pull request from GitHub GraphQL'')]
         | Resolves (Some details) \<Rightarrow>
             (case pullRequestOf details of
                None \<Rightarrow> []
              | Some pr \<Rightarrow>
                  if changedFiles pr = 0 then [Warning (lit ''No files changed at all...'')]
                  else if isPullRequestModifyingMarkdownFiles pr = False
                  then [Warning (lit ''No updated markdown files...'')]
                  else
                    (let modifiedMarkdownFiles = getModifiedMarkdownFiles pr;
                         markdownTable = buildMarkdownPreviewTable cmp prNumber modifiedMarkdownFiles;
                         updatedBody =
                           (if includes_js (body pr) PREVIEW_TABLE_START
                               \<and> includes_js (body pr) PREVIEW_TABLE_END
                            then replaceExistingTable (body pr) markdownTable
                            else appendTable (body pr) markdownTable)
                     in PullsUpdate (owner ctx) (repo ctx) prNumber updatedBody
                        # (case update updatedBody of
                             Throws err \<Rightarrow> [Warning err]
                           | Resolves response \<Rightarrow>
                               if response = Some 200
                               then [Notice (lit ''Pull request updated...'')]
                               else [Warning (lit ''Unable to update pull request...'')]))))
      @ [EndGroup])"

section \<open>Properties of the string operations\<close>

text \<open>
  \<open>includes_js\<close> is substring containment, and \<open>endsWith\<close> is being a suffix.
\<close>

lemma includes_js_iff: "includes_js s p \<longleftrightarrow> (\<exists>u v. s = u @ p @ v)"
proof (induction s)
  case Nil
  then show ?case by simp
next
  case (Cons c s)
  show ?case
  proof
    assume "includes_js (c # s) p"
    then consider "prefix p (c # s)" | "includes_js s p" by auto
    then show "\<exists>u v. c # s = u @ p @ v"
    proof cases
      case 1
      then obtain v where "c # s = p @ v" by (auto simp: prefix_def)
      then have "c # s = [] @ p @ v" by simp
      then show ?thesis by blast
    next
      case 2
      with Cons.IH obtain u v where "s = u @ p @ v" by blast
      then have "c # s = (c # u) @ p @ v" by simp
      then show ?thesis by blast
    qed
  next
    assume "\<exists>u v. c # s = u @ p @ v"
    then obtain u v where uv: "c # s = u @ p @ v" by blast
    show "includes_js (c # s) p"
    proof (cases u)
      case Nil
      with uv have "prefix p (c # s)" by (simp add: prefix_def)
      then show ?thesis by simp
    next
      case (Cons d u')
      with uv have "s = u' @ p @ v" by simp
      with Cons.IH have "includes_js s p" by blast
      then show ?thesis by simp
    qed
  qed
qed

lemma endsWith_iff: "endsWith s p \<longleftrightarrow> (\<exists>u. s = u @ p)"
proof
  assume "endsWith s p"
  then have "s = take (length s - length p) s @ p"
    by (metis append_take_drop_id endsWith_def)
  then show "\<exists>u. s = u @ p" ..
next
  assume "\<exists>u. s = u @ p"
  then show "endsWith s p" by (auto simp: endsWith_def)
qed

text \<open>
  Both searches fail exactly when the pattern does not occur. When it occurs,
  \<open>indexOf\<close> is the length of the text in front of the first occurrence and
  \<open>lastIndexOf\<close> the length of the text in front of the last one.
\<close>

lemma indexOf_ge: "- 1 \<le> indexOf s p"
  by (induction s) (auto simp: Let_def)

lemma indexOf_none: "indexOf s p = - 1 \<longleftrightarrow> \<not> includes_js s p"
proof (induction s)
  case Nil
  then show ?case by simp
next
  case (Cons c s)
  have "- 1 \<le> indexOf s p" by (rule indexOf_ge)
  with Cons show ?case by (auto simp: Let_def)
qed

lemma lastIndexOf_ge: "- 1 \<le> lastIndexOf s p"
  by (induction s) (auto simp: Let_def)

lemma lastIndexOf_none: "lastIndexOf s p = - 1 \<longleftrightarrow> \<not> includes_js s p"
proof (induction s)
  case Nil
  then show ?case by simp
next
  case (Cons c s)
  have "- 1 \<le> lastIndexOf s p" by (rule lastIndexOf_ge)
  with Cons show ?case by (auto simp: Let_def)
qed

lemma indexOf_found:
  "includes_js s p \<Longrightarrow>
   \<exists>u v. s = u @ p @ v \<and> indexOf s p = int (length u)
     \<and> (\<forall>u' v'. s = u' @ p @ v' \<longrightarrow> length u \<le> length u')"
proof (induction s)
  case Nil
  then show ?case by simp
next
  case (Cons c s)
  show ?case
  proof (cases "prefix p (c # s)")
    case True
    then obtain v where v: "c # s = p @ v" by (auto simp: prefix_def)
    from True have "indexOf (c # s) p = 0" by simp
    with v have "c # s = [] @ p @ v \<and> indexOf (c # s) p = int (length ([]::'a list))
        \<and> (\<forall>u' v'. c # s = u' @ p @ v' \<longrightarrow> length ([]::'a list) \<le> length u')"
      by simp
    then show ?thesis by (intro exI)
  next
    case False
    with Cons.prems have "includes_js s p" by simp
    with Cons.IH obtain u v where uv: "s = u @ p @ v" "indexOf s p = int (length u)"
      and least: "\<And>u' v'. s = u' @ p @ v' \<Longrightarrow> length u \<le> length u'" by blast
    have a: "c # s = (c # u) @ p @ v" using uv by simp
    have b: "indexOf (c # s) p = int (length (c # u))" using False uv by (simp add: Let_def)
    have c: "length (c # u) \<le> length u'" if h: "c # s = u' @ p @ v'" for u' v'
    proof (cases u')
      case Nil
      with h have "prefix p (c # s)" by (simp add: prefix_def)
      with False show ?thesis by simp
    next
      case (Cons d u'')
      with h have "s = u'' @ p @ v'" by simp
      then have "length u \<le> length u''" by (rule least)
      with Cons show ?thesis by simp
    qed
    from a b c show ?thesis by blast
  qed
qed

lemma lastIndexOf_found:
  "includes_js s p \<Longrightarrow>
   \<exists>w z. s = w @ p @ z \<and> lastIndexOf s p = int (length w)
     \<and> (\<forall>w' z'. s = w' @ p @ z' \<longrightarrow> length w' \<le> length w)"
proof (induction s)
  case Nil
  then show ?case by simp
next
  case (Cons c s)
  show ?case
  proof (cases "includes_js s p")
    case True
    with Cons.IH obtain w z where wz: "s = w @ p @ z" "lastIndexOf s p = int (length w)"
      and greatest: "\<And>w' z'. s = w' @ p @ z' \<Longrightarrow> length w' \<le> length w" by blast
    from True have ne: "lastIndexOf s p \<noteq> - 1" by (simp add: lastIndexOf_none)
    have a: "c # s = (c # w) @ p @ z" using wz by simp
    have b: "lastIndexOf (c # s) p = int (length (c # w))" using ne wz by (simp add: Let_def)
    have c: "length w' \<le> length (c # w)" if h: "c # s = w' @ p @ z'" for w' z'
    proof (cases w')
      case Nil
      then show ?thesis by simp
    next
      case (Cons d w'')
      with h have "s = w'' @ p @ z'" by simp
      then have "length w'' \<le> length w" by (rule greatest)
      with Cons show ?thesis by simp
    qed
    from a b c show ?thesis by blast
  next
    case False
    with Cons.prems have pre: "prefix p (c # s)" by simp
    from False have eq: "lastIndexOf s p = - 1" by (simp add: lastIndexOf_none)
    from pre obtain z where a: "c # s = [] @ p @ z" by (auto simp: prefix_def)
    have b: "lastIndexOf (c # s) p = int (length ([]::'a list))" using pre eq by simp
    have c: "length w' \<le> length ([]::'a list)" if h: "c # s = w' @ p @ z'" for w' z'
    proof (cases w')
      case Nil
      then show ?thesis by simp
    next
      case (Cons d w'')
      with h have "s = w'' @ p @ z'" by simp
      then have "includes_js s p" unfolding includes_js_iff by blast
      with False show ?thesis by simp
    qed
    from a b c show ?thesis by blast
  qed
qed

lemma substring_prefix: "substring (u @ r) 0 (int (length u)) = u"
  by (simp add: substring_def Let_def)

lemma substringFrom_suffix: "substringFrom (w @ z) (int (length w)) = z"
  by (simp add: substringFrom_def substring_def Let_def)

text \<open>
  \<open>replace\<close> rewrites the first occurrence of the pattern and nothing else: when no
  occurrence starts inside \<open>u\<close>, the occurrence that follows \<open>u\<close> is the one replaced,
  whatever comes after it.
\<close>

lemma prefix_before_occurrence:
  assumes "prefix p (u @ p @ v)" and "u \<noteq> []"
  shows "prefix p (u @ butlast p)"
proof (cases "p = []")
  case True
  then show ?thesis by simp
next
  case False
  then have "u @ p @ v = (u @ butlast p) @ (last p # v)" by simp
  then have "prefix (u @ butlast p) (u @ p @ v)" by (metis prefixI)
  moreover have "length p \<le> length (u @ butlast p)" using assms(2) False
    by (cases u) auto
  ultimately show ?thesis using assms(1) by (rule_tac prefix_length_prefix)
qed

lemma replace_first_occurrence:
  "\<not> includes_js (u @ butlast pat) pat \<Longrightarrow> replace (u @ pat @ v) pat rep = u @ rep @ v"
proof (induction u)
  case Nil
  then have "pat \<noteq> []" by (cases "butlast pat") auto
  then obtain c s where cs: "pat @ v = c # s" by (cases pat) auto
  have "prefix pat (c # s)" unfolding cs [symmetric] by simp
  then have "replace (c # s) pat rep = rep @ drop (length pat) (c # s)" by simp
  then show ?case unfolding cs [symmetric] by simp
next
  case (Cons c u)
  from Cons.prems have a: "\<not> prefix pat ((c # u) @ butlast pat)"
    and b: "\<not> includes_js (u @ butlast pat) pat" by simp_all
  from a have "\<not> prefix pat ((c # u) @ pat @ v)"
    using prefix_before_occurrence [of pat "c # u" v] by blast
  with Cons.IH [OF b] show ?case by simp
qed

lemma no_start_in_diagnostics:
  "\<not> includes_js (lit ''Unable to parse starting index of existing markdown table.'') PREVIEW_TABLE_START"
  "\<not> includes_js (lit ''Unable to parse ending index of existing markdown table.'') PREVIEW_TABLE_START"
  by (simp_all add: lit_def PREVIEW_TABLE_START_def)

lemma replaceExistingTable_found:
  assumes s: "bodyText = u @ PREVIEW_TABLE_START @ v"
    and i: "indexOf bodyText PREVIEW_TABLE_START = int (length u)"
    and e: "bodyText = w @ PREVIEW_TABLE_END @ z"
    and j: "lastIndexOf bodyText PREVIEW_TABLE_END = int (length w)"
  shows "replaceExistingTable bodyText table =
    u @ PREVIEW_TABLE_START @ lit ''\<newline>\<newline>'' @ table @ lit ''\<newline>\<newline>'' @ PREVIEW_TABLE_END @ z"
proof -
  have "substring bodyText 0 (int (length u) + int (length PREVIEW_TABLE_START)) = u @ PREVIEW_TABLE_START"
    using substring_prefix [of "u @ PREVIEW_TABLE_START" v] s by simp
  moreover have "substringFrom bodyText (int (length w)) = PREVIEW_TABLE_END @ z"
    using substringFrom_suffix [of w "PREVIEW_TABLE_END @ z"] e by simp
  ultimately show ?thesis
    using i j by (simp add: replaceExistingTable_def Let_def)
qed

section \<open>Properties of sorting and of the Map\<close>

lemma consistentComparator_compareCanonical: "consistentComparator compareCanonical"
  unfolding consistentComparator_def compareCanonical_def compareCodeUnits_def
  by (auto simp: not_less dest: less_trans)

lemma set_insertBy: "set (insertBy cmp x ys) = insert x (set ys)"
  by (induction ys) auto

lemma set_sort_js: "set (sort_js cmp xs) = set xs"
  by (induction xs) (simp_all add: sort_js_def set_insertBy)

lemma sorted_insertBy:
  assumes "consistentComparator cmp" and "sorted_wrt (\<lambda>a b. cmp a b \<le> 0) ys"
  shows "sorted_wrt (\<lambda>a b. cmp a b \<le> 0) (insertBy cmp x ys)"
  using assms(2)
proof (induction ys)
  case Nil
  then show ?case by simp
next
  case (Cons y ys)
  from assms(1) have tr: "\<And>a b c. cmp a b \<le> 0 \<Longrightarrow> cmp b c \<le> 0 \<Longrightarrow> cmp a c \<le> 0"
    unfolding consistentComparator_def by blast
  from assms(1) have sgn: "\<And>a b. (cmp a b < 0) = (0 < cmp b a)"
    unfolding consistentComparator_def by blast
  have tot: "cmp b a \<le> 0" if "\<not> cmp a b \<le> 0" for a b
    using that sgn [of b a] by simp
  show ?case
  proof (cases "cmp x y \<le> 0")
    case True
    with Cons.prems tr show ?thesis by auto
  next
    case False
    with Cons tot show ?thesis by (auto simp: set_insertBy)
  qed
qed

lemma sorted_sort_js:
  "consistentComparator cmp \<Longrightarrow> sorted_wrt (\<lambda>a b. cmp a b \<le> 0) (sort_js cmp xs)"
  by (induction xs) (simp_all add: sort_js_def sorted_insertBy)

lemma map_set_graph:
  "map_set (map (\<lambda>k. (k, g k)) ks) k (g k) =
     map (\<lambda>k. (k, g k)) (if k \<in> set ks then ks else ks @ [k])"
  by (induction ks) auto

lemma foldl_map_set_graph:
  "\<exists>ks. foldl (\<lambda>m k. map_set m k (g k)) [] xs = map (\<lambda>k. (k, g k)) ks
     \<and> set ks = set xs \<and> distinct ks
     \<and> (sorted_wrt R xs \<longrightarrow> sorted_wrt R ks)"
proof (induction xs rule: rev_induct)
  case Nil
  then show ?case by simp
next
  case (snoc x xs)
  then obtain ks where ks: "foldl (\<lambda>m k. map_set m k (g k)) [] xs = map (\<lambda>k. (k, g k)) ks"
    "set ks = set xs" "distinct ks" "sorted_wrt R xs \<longrightarrow> sorted_wrt R ks" by blast
  let ?ks = "if x \<in> set ks then ks else ks @ [x]"
  have "foldl (\<lambda>m k. map_set m k (g k)) [] (xs @ [x]) = map (\<lambda>k. (k, g k)) ?ks"
    using ks(1) by (simp only: foldl_append foldl.simps map_set_graph)
  moreover have "set ?ks = set (xs @ [x])" using ks(2) by auto
  moreover have "distinct ?ks" using ks(3) by simp
  moreover have "sorted_wrt R (xs @ [x]) \<longrightarrow> sorted_wrt R ?ks"
    using ks(2) ks(4) by (auto simp: sorted_wrt_append)
  ultimately show ?case by blast
qed

lemma links_graph:
  "links cmp n xs = map (\<lambda>k. (k, toLink n k)) (map fst (links cmp n xs))"
proof -
  from foldl_map_set_graph [of "toLink n" "sort_js cmp xs" "\<lambda>a b. True"]
  obtain ks where "links cmp n xs = map (\<lambda>k. (k, toLink n k)) ks"
    unfolding links_def by blast
  then show ?thesis by (simp add: comp_def)
qed

lemma links_keys:
  "set (map fst (links cmp n xs)) = set xs"
  "distinct (map fst (links cmp n xs))"
  "consistentComparator cmp \<Longrightarrow> sorted_wrt (\<lambda>a b. cmp a b \<le> 0) (map fst (links cmp n xs))"
proof -
  from foldl_map_set_graph [of "toLink n" "sort_js cmp xs" "\<lambda>a b. cmp a b \<le> 0"]
  obtain ks where ks: "links cmp n xs = map (\<lambda>k. (k, toLink n k)) ks"
    "set ks = set (sort_js cmp xs)" "distinct ks"
    "sorted_wrt (\<lambda>a b. cmp a b \<le> 0) (sort_js cmp xs) \<longrightarrow> sorted_wrt (\<lambda>a b. cmp a b \<le> 0) ks"
    unfolding links_def by blast
  from ks(1) have k: "map fst (links cmp n xs) = ks" by (simp add: comp_def)
  show "set (map fst (links cmp n xs)) = set xs" using k ks(2) by (simp add: set_sort_js)
  show "distinct (map fst (links cmp n xs))" using k ks(3) by simp
  show "sorted_wrt (\<lambda>a b. cmp a b \<le> 0) (map fst (links cmp n xs))" if "consistentComparator cmp"
    using k ks(4) sorted_sort_js [OF that] by simp
qed

lemma foldl_rows:
  "foldl (\<lambda>markdownTable (file, link). markdownTable @ tableRow file link) h es =
     h @ concat (map (\<lambda>(file, link). tableRow file link) es)"
  by (induction es arbitrary: h) (auto)

lemma buildMarkdownPreviewTable_rows:
  "buildMarkdownPreviewTable cmp n xs =
     lit ''| File | Preview |\<newline>|:--|:--|\<newline>''
     @ concat (map (\<lambda>file. tableRow file (toLink n file)) (map fst (links cmp n xs)))"
proof -
  have "map (\<lambda>(file, link). tableRow file link) (links cmp n xs) =
      map (\<lambda>(file, link). tableRow file link)
        (map (\<lambda>k. (k, toLink n k)) (map fst (links cmp n xs)))"
    by (rule arg_cong [OF links_graph])
  also have "\<dots> = map (\<lambda>file. tableRow file (toLink n file)) (map fst (links cmp n xs))"
    by (simp add: comp_def)
  finally have eq: "map (\<lambda>(file, link). tableRow file link) (links cmp n xs) =
      map (\<lambda>file. tableRow file (toLink n file)) (map fst (links cmp n xs))" .
  show ?thesis
    unfolding buildMarkdownPreviewTable_def Let_def foldl_rows eq
    by (simp add: lit_def)
qed

lemma includes_js_concat_map:
  assumes "x \<in> set xs" and "includes_js (f x) p"
  shows "includes_js (h @ concat (map f xs)) p"
proof -
  from assms(1) obtain ys zs where xs: "xs = ys @ x # zs" by (auto simp: in_set_conv_decomp)
  from assms(2) obtain u v where fx: "f x = u @ p @ v" unfolding includes_js_iff by blast
  have "h @ concat (map f xs) = (h @ concat (map f ys) @ u) @ p @ (v @ concat (map f zs))"
    by (simp add: xs fx)
  then show ?thesis unfolding includes_js_iff by blast
qed

lemma sorted_wrt_distinct_unique:
  assumes "sorted_wrt R xs" "sorted_wrt R ys" "distinct xs" "distinct ys" "set xs = set ys"
    and "\<And>a b. a \<in> set xs \<Longrightarrow> b \<in> set xs \<Longrightarrow> R a b \<Longrightarrow> R b a \<Longrightarrow> a = b"
  shows "xs = ys"
  using assms
proof (induction xs arbitrary: ys)
  case Nil
  then show ?case by simp
next
  case (Cons x xs)
  from Cons.prems(5) obtain y ys' where ys: "ys = y # ys'" by (cases ys) auto
  have xy: "x = y"
  proof (rule ccontr)
    assume ne: "x \<noteq> y"
    with Cons.prems(5) ys have "x \<in> set ys'" "y \<in> set xs" by auto
    with Cons.prems(1,2) ys have "R y x" "R x y" by auto
    moreover have "x \<in> set (x # xs)" "y \<in> set (x # xs)" using \<open>y \<in> set xs\<close> by auto
    ultimately have "x = y" using Cons.prems(6) by blast
    with ne show False by simp
  qed
  with Cons.prems(3,4,5) ys have "set xs = set ys'" by auto
  moreover from Cons.prems ys have "sorted_wrt R xs" "sorted_wrt R ys'" "distinct xs" "distinct ys'" by auto
  ultimately have "xs = ys'" using Cons.IH Cons.prems(6) by (metis list.set_intros(2))
  with xy ys show ?case by simp
qed

section \<open>The body splicer\<close>

text \<open>
  Claim C1. When the body contains both sentinels, \<open>replaceExistingTable\<close> keeps the
  text up to and including the first start sentinel (\<open>u\<close> and the sentinel, where no
  occurrence of the start sentinel begins before the end of \<open>u\<close>) and the text from the
  last end sentinel onward (the sentinel and \<open>z\<close>, where no occurrence of the end
  sentinel begins after the end of \<open>w\<close>), and puts between them the table with two line
  feeds on each side. This holds wherever the sentinels lie; when the last end sentinel
  starts before the first start sentinel ends, the two kept parts overlap in the body.
\<close>

theorem replaceExistingTable_splices:
  assumes "includes_js bodyText PREVIEW_TABLE_START" and "includes_js bodyText PREVIEW_TABLE_END"
  shows "\<exists>u v w z.
    bodyText = u @ PREVIEW_TABLE_START @ v
    \<and> (\<forall>u' v'. bodyText = u' @ PREVIEW_TABLE_START @ v' \<longrightarrow> length u \<le> length u')
    \<and> bodyText = w @ PREVIEW_TABLE_END @ z
    \<and> (\<forall>w' z'. bodyText = w' @ PREVIEW_TABLE_END @ z' \<longrightarrow> length w' \<le> length w)
    \<and> replaceExistingTable bodyText table =
        u @ PREVIEW_TABLE_START @ lit ''\<newline>\<newline>'' @ table @ lit ''\<newline>\<newline>'' @ PREVIEW_TABLE_END @ z"
proof -
  from indexOf_found [OF assms(1)] obtain u v where
    u: "bodyText = u @ PREVIEW_TABLE_START @ v" "indexOf bodyText PREVIEW_TABLE_START = int (length u)"
      "\<forall>u' v'. bodyText = u' @ PREVIEW_TABLE_START @ v' \<longrightarrow> length u \<le> length u'"
    by blast
  from lastIndexOf_found [OF assms(2)] obtain w z where
    w: "bodyText = w @ PREVIEW_TABLE_END @ z" "lastIndexOf bodyText PREVIEW_TABLE_END = int (length w)"
      "\<forall>w' z'. bodyText = w' @ PREVIEW_TABLE_END @ z' \<longrightarrow> length w' \<le> length w"
    by blast
  from replaceExistingTable_found [OF u(1) u(2) w(1) w(2)] u(1) u(3) w(1) w(3)
  show ?thesis by blast
qed

theorem replaceExistingTable_splices_witness:
  "includes_js (lit ''Intro <!-- PREVIEW-TABLE-START -->old<!-- PREVIEW-TABLE-END --> outro'') PREVIEW_TABLE_START
   \<and> includes_js (lit ''Intro <!-- PREVIEW-TABLE-START -->old<!-- PREVIEW-TABLE-END --> outro'') PREVIEW_TABLE_END
   \<and> (\<exists>u v w z.
        lit ''Intro <!-- PREVIEW-TABLE-START -->old<!-- PREVIEW-TABLE-END --> outro'' = u @ PREVIEW_TABLE_START @ v
        \<and> lit ''Intro <!-- PREVIEW-TABLE-START -->old<!-- PREVIEW-TABLE-END --> outro'' = w @ PREVIEW_TABLE_END @ z
        \<and> replaceExistingTable (lit ''Intro <!-- PREVIEW-TABLE-START -->old<!-- PREVIEW-TABLE-END --> outro'') (lit ''| T |'') =
            u @ PREVIEW_TABLE_START @ lit ''\<newline>\<newline>'' @ lit ''| T |'' @ lit ''\<newline>\<newline>'' @ PREVIEW_TABLE_END @ z)"
proof -
  let ?b = "lit ''Intro <!-- PREVIEW-TABLE-START -->old<!-- PREVIEW-TABLE-END --> outro''"
  have h1: "includes_js ?b PREVIEW_TABLE_START"
    by (simp add: lit_def PREVIEW_TABLE_START_def)
  have h2: "includes_js ?b PREVIEW_TABLE_END"
    by (simp add: lit_def PREVIEW_TABLE_END_def)
  from replaceExistingTable_splices [OF h1 h2, of "lit ''| T |''"] h1 h2
  show ?thesis by blast
qed

text \<open>
  Claim C7. Without a start sentinel the result is the first diagnostic string; with a
  start sentinel and without an end sentinel it is the second one. The function has no
  failing branch: each diagnostic is an ordinary return value.
\<close>

theorem replaceExistingTable_diagnostics:
  "(\<not> includes_js bodyText PREVIEW_TABLE_START \<longrightarrow>
      replaceExistingTable bodyText table =
        lit ''Unable to parse starting index of existing markdown table.'')
   \<and> (includes_js bodyText PREVIEW_TABLE_START \<and> \<not> includes_js bodyText PREVIEW_TABLE_END \<longrightarrow>
      replaceExistingTable bodyText table =
        lit ''Unable to parse ending index of existing markdown table.'')"
  by (simp add: replaceExistingTable_def Let_def indexOf_none lastIndexOf_none)

theorem replaceExistingTable_diagnostics_witness:
  "\<not> includes_js (lit ''No table yet.'') PREVIEW_TABLE_START
   \<and> replaceExistingTable (lit ''No table yet.'') (lit ''| T |'') =
        lit ''Unable to parse starting index of existing markdown table.''
   \<and> includes_js (lit ''<!-- PREVIEW-TABLE-START -->cut'') PREVIEW_TABLE_START
   \<and> \<not> includes_js (lit ''<!-- PREVIEW-TABLE-START -->cut'') PREVIEW_TABLE_END
   \<and> replaceExistingTable (lit ''<!-- PREVIEW-TABLE-START -->cut'') (lit ''| T |'') =
        lit ''Unable to parse ending index of existing markdown table.''"
proof -
  have h1: "\<not> includes_js (lit ''No table yet.'') PREVIEW_TABLE_START"
    by (simp add: lit_def PREVIEW_TABLE_START_def)
  have h2: "includes_js (lit ''<!-- PREVIEW-TABLE-START -->cut'') PREVIEW_TABLE_START"
    by (simp add: lit_def PREVIEW_TABLE_START_def)
  have h3: "\<not> includes_js (lit ''<!-- PREVIEW-TABLE-START -->cut'') PREVIEW_TABLE_END"
    by (simp add: lit_def PREVIEW_TABLE_END_def)
  from replaceExistingTable_diagnostics [of "lit ''No table yet.''" "lit ''| T |''"]
    replaceExistingTable_diagnostics [of "lit ''<!-- PREVIEW-TABLE-START -->cut''" "lit ''| T |''"]
    h1 h2 h3
  show ?thesis by blast
qed

text \<open>
  Claim C10. Under the guard of the caller, both sentinels being contained in the body,
  neither search returns \<open>-1\<close>, and the result is the spliced body, which is neither
  of the two diagnostic strings.
\<close>

theorem replaceExistingTable_guarded:
  assumes "includes_js bodyText PREVIEW_TABLE_START" and "includes_js bodyText PREVIEW_TABLE_END"
  shows "indexOf bodyText PREVIEW_TABLE_START \<noteq> - 1
    \<and> lastIndexOf bodyText PREVIEW_TABLE_END \<noteq> - 1
    \<and> replaceExistingTable bodyText table =
        substring bodyText 0 (indexOf bodyText PREVIEW_TABLE_START + int (length PREVIEW_TABLE_START))
        @ lit ''\<newline>\<newline>'' @ table @ lit ''\<newline>\<newline>''
        @ substringFrom bodyText (lastIndexOf bodyText PREVIEW_TABLE_END)
    \<and> replaceExistingTable bodyText table \<noteq>
        lit ''Unable to parse starting index of existing markdown table.''
    \<and> replaceExistingTable bodyText table \<noteq>
        lit ''Unable to parse ending index of existing markdown table.''"
proof -
  have i: "indexOf bodyText PREVIEW_TABLE_START \<noteq> - 1"
    using assms(1) by (simp add: indexOf_none)
  have j: "lastIndexOf bodyText PREVIEW_TABLE_END \<noteq> - 1"
    using assms(2) by (simp add: lastIndexOf_none)
  have r: "replaceExistingTable bodyText table =
        substring bodyText 0 (indexOf bodyText PREVIEW_TABLE_START + int (length PREVIEW_TABLE_START))
        @ lit ''\<newline>\<newline>'' @ table @ lit ''\<newline>\<newline>''
        @ substringFrom bodyText (lastIndexOf bodyText PREVIEW_TABLE_END)"
    using i j by (simp add: replaceExistingTable_def Let_def)
  from indexOf_found [OF assms(1)] obtain u v where
    u: "bodyText = u @ PREVIEW_TABLE_START @ v" "indexOf bodyText PREVIEW_TABLE_START = int (length u)"
    by blast
  from lastIndexOf_found [OF assms(2)] obtain w z where
    w: "bodyText = w @ PREVIEW_TABLE_END @ z" "lastIndexOf bodyText PREVIEW_TABLE_END = int (length w)"
    by blast
  have "includes_js (replaceExistingTable bodyText table) PREVIEW_TABLE_START"
    unfolding replaceExistingTable_found [OF u w] includes_js_iff by blast
  with no_start_in_diagnostics have
    "replaceExistingTable bodyText table \<noteq>
        lit ''Unable to parse starting index of existing markdown table.''"
    "replaceExistingTable bodyText table \<noteq>
        lit ''Unable to parse ending index of existing markdown table.''"
    by auto
  with i j r show ?thesis by blast
qed

theorem replaceExistingTable_guarded_witness:
  "includes_js (lit ''<!-- PREVIEW-TABLE-END --><!-- PREVIEW-TABLE-START -->'') PREVIEW_TABLE_START
   \<and> includes_js (lit ''<!-- PREVIEW-TABLE-END --><!-- PREVIEW-TABLE-START -->'') PREVIEW_TABLE_END
   \<and> indexOf (lit ''<!-- PREVIEW-TABLE-END --><!-- PREVIEW-TABLE-START -->'') PREVIEW_TABLE_START \<noteq> - 1
   \<and> lastIndexOf (lit ''<!-- PREVIEW-TABLE-END --><!-- PREVIEW-TABLE-START -->'') PREVIEW_TABLE_END \<noteq> - 1
   \<and> replaceExistingTable (lit ''<!-- PREVIEW-TABLE-END --><!-- PREVIEW-TABLE-START -->'') (lit ''| T |'') \<noteq>
        lit ''Unable to parse starting index of existing markdown table.''
   \<and> replaceExistingTable (lit ''<!-- PREVIEW-TABLE-END --><!-- PREVIEW-TABLE-START -->'') (lit ''| T |'') \<noteq>
        lit ''Unable to parse ending index of existing markdown table.''"
proof -
  let ?b = "lit ''<!-- PREVIEW-TABLE-END --><!-- PREVIEW-TABLE-START -->''"
  have h1: "includes_js ?b PREVIEW_TABLE_START"
    by (simp add: lit_def PREVIEW_TABLE_START_def)
  have h2: "includes_js ?b PREVIEW_TABLE_END"
    by (simp add: lit_def PREVIEW_TABLE_END_def)
  from replaceExistingTable_guarded [OF h1 h2, of "lit ''| T |''"] h1 h2
  show ?thesis by blast
qed

text \<open>
  Claim C4. \<open>appendTable\<close> returns the body, two line feeds (U+000A) and the table,
  for every body, in particular for one that contains neither sentinel.
\<close>

theorem appendTable_concat: "appendTable bodyText table = bodyText @ [10, 10] @ table"
  by (simp add: appendTable_def lit_def)

section \<open>The change filter\<close>

text \<open>
  Claim C5. \<open>isFileModified\<close> holds exactly for the change types ADDED, CHANGED and
  MODIFIED; it fails for DELETED, RENAMED and any other change type.
\<close>

theorem isFileModified_iff:
  "(isFileModified e \<longleftrightarrow> changeType (node e) \<in> {ADDED, CHANGED, MODIFIED})
   \<and> \<not> isFileModified (e\<lparr>node := (node e)\<lparr>changeType := DELETED\<rparr>\<rparr>)
   \<and> \<not> isFileModified (e\<lparr>node := (node e)\<lparr>changeType := RENAMED\<rparr>\<rparr>)
   \<and> \<not> isFileModified (e\<lparr>node := (node e)\<lparr>changeType := OTHER x\<rparr>\<rparr>)"
  by (simp add: isFileModified_def)

section \<open>The table builder\<close>

text \<open>
  Claim C6. For pull number 34443 and the path of the source comment, the link is the
  URL of the source comment, and it is the value stored in the Map for that path.
\<close>

theorem toLink_example:
  "toLink 34443 (lit ''docs/orleans/resources/nuget-packages.md'') =
     lit ''https://review.learn.microsoft.com/en-us/dotnet/orleans/resources/nuget-packages?branch=pr-en-us-34443''
   \<and> links cmp 34443 [lit ''docs/orleans/resources/nuget-packages.md''] =
     [(lit ''docs/orleans/resources/nuget-packages.md'',
       lit ''https://review.learn.microsoft.com/en-us/dotnet/orleans/resources/nuget-packages?branch=pr-en-us-34443'')]"
  by (simp add: links_def sort_js_def toLink_def Let_def lit_def numberToString.simps)

text \<open>
  Claim C9. Only the first occurrence of a pattern is removed, wherever it is: when no
  occurrence starts inside \<open>u\<close>, removing \<open>pat\<close> from \<open>u @ pat @ v\<close> leaves \<open>u @ v\<close>,
  also when \<open>v\<close> ends in \<open>pat\<close>. For \<open>docs/a.md-notes/b.md\<close>, which ends in
  \<open>.md\<close>, the link and the row label lose the inner \<open>.md\<close> and keep the final one;
  for \<open>api/docs/index.md\<close> the inner \<open>docs/\<close> is removed.
\<close>

theorem toLink_first_occurrence_only:
  "(\<not> includes_js (u @ butlast pat) pat \<longrightarrow> replace (u @ pat @ v) pat [] = u @ v)
   \<and> endsWith (lit ''docs/a.md-notes/b.md'') (lit ''.md'')
   \<and> toLink prNumber (lit ''docs/a.md-notes/b.md'') =
       lit ''https://review.learn.microsoft.com/en-us/dotnet/a-notes/b.md?branch=pr-en-us-''
       @ numberToString prNumber
   \<and> tableRow (lit ''docs/a.md-notes/b.md'') link =
       lit ''| '' @ [0xD83D, 0xDCC4] @ lit '' _docs/a.md-notes/b.md_ | '' @ [0xD83D, 0xDD17]
       @ lit '' [Preview: docs/a-notes/b.md]('' @ link @ lit '') |\<newline>''
   \<and> toLink prNumber (lit ''api/docs/index.md'') =
       lit ''https://review.learn.microsoft.com/en-us/dotnet/api/index?branch=pr-en-us-''
       @ numberToString prNumber"
proof -
  have "\<not> includes_js (u @ butlast pat) pat \<longrightarrow> replace (u @ pat @ v) pat [] = u @ v"
    using replace_first_occurrence [of u pat v "[]"] by simp
  moreover have "endsWith (lit ''docs/a.md-notes/b.md'') (lit ''.md'')"
    by (simp add: endsWith_def lit_def)
  moreover have "toLink prNumber (lit ''docs/a.md-notes/b.md'') =
       lit ''https://review.learn.microsoft.com/en-us/dotnet/a-notes/b.md?branch=pr-en-us-''
       @ numberToString prNumber"
    by (simp add: toLink_def Let_def lit_def)
  moreover have "tableRow (lit ''docs/a.md-notes/b.md'') link =
       lit ''| '' @ [0xD83D, 0xDCC4] @ lit '' _docs/a.md-notes/b.md_ | '' @ [0xD83D, 0xDD17]
       @ lit '' [Preview: docs/a-notes/b.md]('' @ link @ lit '') |\<newline>''"
    by (simp add: tableRow_def lit_def)
  moreover have "toLink prNumber (lit ''api/docs/index.md'') =
       lit ''https://review.learn.microsoft.com/en-us/dotnet/api/index?branch=pr-en-us-''
       @ numberToString prNumber"
    by (simp add: toLink_def Let_def lit_def)
  ultimately show ?thesis by blast
qed

theorem toLink_first_occurrence_only_witness:
  "\<not> includes_js (lit ''docs/a'' @ butlast (lit ''.md'')) (lit ''.md'')
   \<and> replace (lit ''docs/a'' @ lit ''.md'' @ lit ''-notes/b.md'') (lit ''.md'') []
     = lit ''docs/a'' @ lit ''-notes/b.md''
   \<and> toLink 34443 (lit ''docs/a.md-notes/b.md'') =
       lit ''https://review.learn.microsoft.com/en-us/dotnet/a-notes/b.md?branch=pr-en-us-34443''"
proof -
  have h: "\<not> includes_js (lit ''docs/a'' @ butlast (lit ''.md'')) (lit ''.md'')"
    by (simp add: lit_def)
  have n: "numberToString 34443 = lit ''34443''"
    by (simp add: numberToString.simps lit_def)
  from toLink_first_occurrence_only
    [of "lit ''docs/a''" "lit ''.md''" "lit ''-notes/b.md''" 34443 "[]"] h
  have "replace (lit ''docs/a'' @ lit ''.md'' @ lit ''-notes/b.md'') (lit ''.md'') []
      = lit ''docs/a'' @ lit ''-notes/b.md''"
    and "toLink 34443 (lit ''docs/a.md-notes/b.md'') =
       lit ''https://review.learn.microsoft.com/en-us/dotnet/a-notes/b.md?branch=pr-en-us-''
       @ numberToString 34443"
    by blast+
  with h n show ?thesis by (simp add: lit_def)
qed

text \<open>
  Claim C2. For every snapshot and every consistent comparator, the keys of the Map, in
  iteration order, are exactly the paths of the files that end in \<open>.md\<close> and whose
  change type is ADDED, CHANGED or MODIFIED; no path occurs twice; the keys are in the
  order of the comparator. The table is the two header lines followed, for each key in
  that order, by the row text written out below: the path between underscores in the
  first cell, the label and the link in the second. So the table holds the first cell of
  every such file.
\<close>

theorem preview_rows:
  assumes "consistentComparator cmp"
  shows "set (map fst (links cmp prNumber (getModifiedMarkdownFiles pr))) =
      {path (node e) | e. e \<in> set (edges (files pr))
         \<and> endsWith (path (node e)) (lit ''.md'')
         \<and> changeType (node e) \<in> {ADDED, CHANGED, MODIFIED}}
    \<and> distinct (map fst (links cmp prNumber (getModifiedMarkdownFiles pr)))
    \<and> sorted_wrt (\<lambda>a b. cmp a b \<le> 0) (map fst (links cmp prNumber (getModifiedMarkdownFiles pr)))
    \<and> buildMarkdownPreviewTable cmp prNumber (getModifiedMarkdownFiles pr) =
        lit ''| File | Preview |\<newline>|:--|:--|\<newline>''
        @ concat (map
            (\<lambda>file. lit ''| '' @ [0xD83D, 0xDCC4] @ lit '' _'' @ file @ lit ''_ | ''
               @ [0xD83D, 0xDD17] @ lit '' [Preview: '' @ replace file (lit ''.md'') []
               @ lit ''](https://review.learn.microsoft.com/en-us/dotnet/''
               @ replace (replace file (lit ''docs/'') []) (lit ''.md'') []
               @ lit ''?branch=pr-en-us-'' @ numberToString prNumber @ lit '') |\<newline>'')
            (map fst (links cmp prNumber (getModifiedMarkdownFiles pr))))
    \<and> (\<forall>e \<in> set (edges (files pr)).
          endsWith (path (node e)) (lit ''.md'')
          \<and> changeType (node e) \<in> {ADDED, CHANGED, MODIFIED} \<longrightarrow>
          includes_js (buildMarkdownPreviewTable cmp prNumber (getModifiedMarkdownFiles pr))
            (lit ''| '' @ [0xD83D, 0xDCC4] @ lit '' _'' @ path (node e) @ lit ''_ | ''))"
proof -
  let ?fs = "getModifiedMarkdownFiles pr"
  let ?rows = "map fst (links cmp prNumber ?fs)"
  let ?row = "\<lambda>file. lit ''| '' @ [0xD83D, 0xDCC4] @ lit '' _'' @ file @ lit ''_ | ''
               @ [0xD83D, 0xDD17] @ lit '' [Preview: '' @ replace file (lit ''.md'') []
               @ lit ''](https://review.learn.microsoft.com/en-us/dotnet/''
               @ replace (replace file (lit ''docs/'') []) (lit ''.md'') []
               @ lit ''?branch=pr-en-us-'' @ numberToString prNumber @ lit '') |\<newline>''"
  have fs: "set ?fs =
      {path (node e) | e. e \<in> set (edges (files pr))
         \<and> endsWith (path (node e)) (lit ''.md'')
         \<and> changeType (node e) \<in> {ADDED, CHANGED, MODIFIED}}"
    by (auto simp: getModifiedMarkdownFiles_def isFileModified_def)
  have keys: "set ?rows = set ?fs" by (rule links_keys(1))
  have row: "(\<lambda>file. tableRow file (toLink prNumber file)) = ?row"
    by (rule ext) (simp add: tableRow_def toLink_def Let_def lit_def)
  have table: "buildMarkdownPreviewTable cmp prNumber ?fs =
      lit ''| File | Preview |\<newline>|:--|:--|\<newline>'' @ concat (map ?row ?rows)"
    using buildMarkdownPreviewTable_rows [of cmp prNumber ?fs] unfolding row .
  have cell: "includes_js (?row f) (lit ''| '' @ [0xD83D, 0xDCC4] @ lit '' _'' @ f @ lit ''_ | '')"
    for f
    unfolding includes_js_iff
    by (rule exI [of _ "[]"], rule exI) simp
  have appears: "includes_js (buildMarkdownPreviewTable cmp prNumber ?fs)
      (lit ''| '' @ [0xD83D, 0xDCC4] @ lit '' _'' @ path (node e) @ lit ''_ | '')"
    if "e \<in> set (edges (files pr))" "endsWith (path (node e)) (lit ''.md'')"
      "changeType (node e) \<in> {ADDED, CHANGED, MODIFIED}" for e
  proof -
    from that have "path (node e) \<in> set ?rows" unfolding keys fs by blast
    then show ?thesis unfolding table by (rule includes_js_concat_map) (rule cell)
  qed
  from fs keys links_keys(2) [of cmp prNumber ?fs] links_keys(3) [OF assms, of prNumber ?fs]
    table appears
  show ?thesis by blast
qed

theorem preview_rows_witness:
  "consistentComparator compareCanonical
   \<and> map fst (links compareCanonical 7
       (getModifiedMarkdownFiles
         \<lparr>body = lit ''Fixes a typo.'', changedFiles = 5, files = \<lparr>edges =
            [\<lparr>node = \<lparr>additions = 1, changeType = CHANGED, deletions = 1, path = lit ''docs/b.md''\<rparr>\<rparr>,
             \<lparr>node = \<lparr>additions = 9, changeType = ADDED, deletions = 0, path = lit ''docs/a.md''\<rparr>\<rparr>,
             \<lparr>node = \<lparr>additions = 2, changeType = MODIFIED, deletions = 0, path = lit ''docs/b.md''\<rparr>\<rparr>,
             \<lparr>node = \<lparr>additions = 0, changeType = DELETED, deletions = 4, path = lit ''docs/c.md''\<rparr>\<rparr>,
             \<lparr>node = \<lparr>additions = 3, changeType = MODIFIED, deletions = 0, path = lit ''docs/d.txt''\<rparr>\<rparr>]\<rparr>\<rparr>))
     = [lit ''docs/a.md'', lit ''docs/b.md'']
   \<and> buildMarkdownPreviewTable compareCanonical 7
       (getModifiedMarkdownFiles
         \<lparr>body = lit ''Fixes a typo.'', changedFiles = 5, files = \<lparr>edges =
            [\<lparr>node = \<lparr>additions = 1, changeType = CHANGED, deletions = 1, path = lit ''docs/b.md''\<rparr>\<rparr>,
             \<lparr>node = \<lparr>additions = 9, changeType = ADDED, deletions = 0, path = lit ''docs/a.md''\<rparr>\<rparr>,
             \<lparr>node = \<lparr>additions = 2, changeType = MODIFIED, deletions = 0, path = lit ''docs/b.md''\<rparr>\<rparr>,
             \<lparr>node = \<lparr>additions = 0, changeType = DELETED, deletions = 4, path = lit ''docs/c.md''\<rparr>\<rparr>,
             \<lparr>node = \<lparr>additions = 3, changeType = MODIFIED, deletions = 0, path = lit ''docs/d.txt''\<rparr>\<rparr>]\<rparr>\<rparr>)
     = lit ''| File | Preview |\<newline>|:--|:--|\<newline>''
       @ lit ''| '' @ [0xD83D, 0xDCC4] @ lit '' _docs/a.md_ | '' @ [0xD83D, 0xDD17]
       @ lit '' [Preview: docs/a](https://review.learn.microsoft.com/en-us/dotnet/a?branch=pr-en-us-7) |\<newline>''
       @ lit ''| '' @ [0xD83D, 0xDCC4] @ lit '' _docs/b.md_ | '' @ [0xD83D, 0xDD17]
       @ lit '' [Preview: docs/b](https://review.learn.microsoft.com/en-us/dotnet/b?branch=pr-en-us-7) |\<newline>''
   \<and> includes_js
       (buildMarkdownPreviewTable compareCanonical 7
         (getModifiedMarkdownFiles
           \<lparr>body = lit ''Fixes a typo.'', changedFiles = 5, files = \<lparr>edges =
              [\<lparr>node = \<lparr>additions = 1, changeType = CHANGED, deletions = 1, path = lit ''docs/b.md''\<rparr>\<rparr>,
               \<lparr>node = \<lparr>additions = 9, changeType = ADDED, deletions = 0, path = lit ''docs/a.md''\<rparr>\<rparr>,
               \<lparr>node = \<lparr>additions = 2, changeType = MODIFIED, deletions = 0, path = lit ''docs/b.md''\<rparr>\<rparr>,
               \<lparr>node = \<lparr>additions = 0, changeType = DELETED, deletions = 4, path = lit ''docs/c.md''\<rparr>\<rparr>,
               \<lparr>node = \<lparr>additions = 3, changeType = MODIFIED, deletions = 0, path = lit ''docs/d.txt''\<rparr>\<rparr>]\<rparr>\<rparr>))
       (lit ''| '' @ [0xD83D, 0xDCC4] @ lit '' _'' @ lit ''docs/a.md'' @ lit ''_ | '')"
proof -
  let ?a = "\<lparr>node = \<lparr>additions = 9, changeType = ADDED, deletions = 0, path = lit ''docs/a.md''\<rparr>\<rparr>"
  let ?pr = "\<lparr>body = lit ''Fixes a typo.'', changedFiles = 5, files = \<lparr>edges =
            [\<lparr>node = \<lparr>additions = 1, changeType = CHANGED, deletions = 1, path = lit ''docs/b.md''\<rparr>\<rparr>,
             ?a,
             \<lparr>node = \<lparr>additions = 2, changeType = MODIFIED, deletions = 0, path = lit ''docs/b.md''\<rparr>\<rparr>,
             \<lparr>node = \<lparr>additions = 0, changeType = DELETED, deletions = 4, path = lit ''docs/c.md''\<rparr>\<rparr>,
             \<lparr>node = \<lparr>additions = 3, changeType = MODIFIED, deletions = 0, path = lit ''docs/d.txt''\<rparr>\<rparr>]\<rparr>\<rparr>"
  have files: "getModifiedMarkdownFiles ?pr = [lit ''docs/b.md'', lit ''docs/a.md'', lit ''docs/b.md'']"
    by (simp add: getModifiedMarkdownFiles_def isFileModified_def endsWith_def lit_def)
  have sorted: "sort_js compareCanonical [lit ''docs/b.md'', lit ''docs/a.md'', lit ''docs/b.md'']
      = [lit ''docs/a.md'', lit ''docs/b.md'', lit ''docs/b.md'']"
    by (simp add: sort_js_def compareCanonical_def compareCodeUnits_def lit_def)
  have rows: "map fst (links compareCanonical 7 (getModifiedMarkdownFiles ?pr))
      = [lit ''docs/a.md'', lit ''docs/b.md'']"
    unfolding files links_def sorted by (simp add: lit_def)
  have n: "numberToString 7 = lit ''7''" by (simp add: numberToString.simps lit_def)
  have h: "?a \<in> set (edges (files ?pr)) \<and> endsWith (path (node ?a)) (lit ''.md'')
      \<and> changeType (node ?a) \<in> {ADDED, CHANGED, MODIFIED}"
    by (simp add: endsWith_def lit_def)
  note inst = preview_rows [OF consistentComparator_compareCanonical, of 7 ?pr]
  from inst have "buildMarkdownPreviewTable compareCanonical 7 (getModifiedMarkdownFiles ?pr) =
        lit ''| File | Preview |\<newline>|:--|:--|\<newline>''
        @ concat (map
            (\<lambda>file. lit ''| '' @ [0xD83D, 0xDCC4] @ lit '' _'' @ file @ lit ''_ | ''
               @ [0xD83D, 0xDD17] @ lit '' [Preview: '' @ replace file (lit ''.md'') []
               @ lit ''](https://review.learn.microsoft.com/en-us/dotnet/''
               @ replace (replace file (lit ''docs/'') []) (lit ''.md'') []
               @ lit ''?branch=pr-en-us-'' @ numberToString 7 @ lit '') |\<newline>'')
            (map fst (links compareCanonical 7 (getModifiedMarkdownFiles ?pr))))"
    by blast
  then have t: "buildMarkdownPreviewTable compareCanonical 7 (getModifiedMarkdownFiles ?pr) =
       lit ''| File | Preview |\<newline>|:--|:--|\<newline>''
       @ lit ''| '' @ [0xD83D, 0xDCC4] @ lit '' _docs/a.md_ | '' @ [0xD83D, 0xDD17]
       @ lit '' [Preview: docs/a](https://review.learn.microsoft.com/en-us/dotnet/a?branch=pr-en-us-7) |\<newline>''
       @ lit ''| '' @ [0xD83D, 0xDCC4] @ lit '' _docs/b.md_ | '' @ [0xD83D, 0xDD17]
       @ lit '' [Preview: docs/b](https://review.learn.microsoft.com/en-us/dotnet/b?branch=pr-en-us-7) |\<newline>''"
    unfolding rows n by (simp add: lit_def)
  from inst h have i: "includes_js (buildMarkdownPreviewTable compareCanonical 7 (getModifiedMarkdownFiles ?pr))
      (lit ''| '' @ [0xD83D, 0xDCC4] @ lit '' _'' @ path (node ?a) @ lit ''_ | '')"
    by blast
  then have "includes_js (buildMarkdownPreviewTable compareCanonical 7 (getModifiedMarkdownFiles ?pr))
      (lit ''| '' @ [0xD83D, 0xDCC4] @ lit '' _'' @ lit ''docs/a.md'' @ lit ''_ | '')"
    by simp
  with rows t consistentComparator_compareCanonical show ?thesis by blast
qed

text \<open>
  Claim C3, amended. For two path lists with the same set of elements, the tables are
  equal provided the comparator is consistent and returns \<open>0\<close> on no two distinct
  paths of the list.
\<close>

theorem buildMarkdownPreviewTable_set_invariant:
  assumes "consistentComparator cmp"
    and "set xs = set ys"
    and "\<forall>a\<in>set xs. \<forall>b\<in>set xs. cmp a b = 0 \<longrightarrow> a = b"
  shows "buildMarkdownPreviewTable cmp prNumber xs = buildMarkdownPreviewTable cmp prNumber ys"
proof -
  let ?R = "\<lambda>a b. cmp a b \<le> 0"
  from assms(1) have sgn: "\<And>a b. (cmp a b < 0) = (0 < cmp b a)"
    unfolding consistentComparator_def by blast
  have anti: "a = b" if "a \<in> set (map fst (links cmp prNumber xs))"
    "b \<in> set (map fst (links cmp prNumber xs))" "?R a b" "?R b a" for a b
  proof -
    from that(3,4) sgn [of a b] have "cmp a b = 0" by simp
    moreover from that(1,2) have "a \<in> set xs" "b \<in> set xs" by (simp_all only: links_keys(1))
    ultimately show ?thesis using assms(3) by blast
  qed
  have "set (map fst (links cmp prNumber xs)) = set (map fst (links cmp prNumber ys))"
    using assms(2) by (simp only: links_keys(1))
  then have "map fst (links cmp prNumber xs) = map fst (links cmp prNumber ys)"
    using links_keys(3) [OF assms(1), of prNumber xs] links_keys(3) [OF assms(1), of prNumber ys]
      links_keys(2) [of cmp prNumber xs] links_keys(2) [of cmp prNumber ys] anti
    by (intro sorted_wrt_distinct_unique [where R = ?R]) blast+
  then show ?thesis by (simp only: buildMarkdownPreviewTable_rows)
qed

theorem buildMarkdownPreviewTable_set_invariant_witness:
  "consistentComparator compareCanonical
   \<and> set [lit ''docs/b.md'', lit ''docs/a.md'', lit ''docs/b.md''] = set [lit ''docs/a.md'', lit ''docs/b.md'']
   \<and> (compareCanonical (lit ''docs/a.md'') (lit ''docs/b.md'') \<noteq> 0)
   \<and> (compareCanonical (lit ''docs/b.md'') (lit ''docs/a.md'') \<noteq> 0)
   \<and> buildMarkdownPreviewTable compareCanonical 7 [lit ''docs/b.md'', lit ''docs/a.md'', lit ''docs/b.md'']
     = buildMarkdownPreviewTable compareCanonical 7 [lit ''docs/a.md'', lit ''docs/b.md'']"
proof -
  have h2: "set [lit ''docs/b.md'', lit ''docs/a.md'', lit ''docs/b.md''] = set [lit ''docs/a.md'', lit ''docs/b.md'']"
    by (simp add: insert_commute)
  have n1: "compareCanonical (lit ''docs/a.md'') (lit ''docs/b.md'') \<noteq> 0"
    by (simp add: compareCanonical_def compareCodeUnits_def lit_def)
  have n2: "compareCanonical (lit ''docs/b.md'') (lit ''docs/a.md'') \<noteq> 0"
    by (simp add: compareCanonical_def compareCodeUnits_def lit_def)
  have h3: "\<forall>a\<in>set [lit ''docs/b.md'', lit ''docs/a.md'', lit ''docs/b.md''].
      \<forall>b\<in>set [lit ''docs/b.md'', lit ''docs/a.md'', lit ''docs/b.md''].
        compareCanonical a b = 0 \<longrightarrow> a = b"
    using n1 n2 by simp
  from buildMarkdownPreviewTable_set_invariant [OF consistentComparator_compareCanonical h2 h3, of 7]
    consistentComparator_compareCanonical h2 n1 n2
  show ?thesis by blast
qed

text \<open>
  Claim C3 as stated fails when the comparator returns \<open>0\<close> on two distinct paths:
  the stable sort leaves them in input order, the Map keeps both keys, and the rows
  follow the input order. The two paths below spell the same name with U+00E9 and with
  \<open>e\<close> followed by U+0301.
\<close>

theorem buildMarkdownPreviewTable_permutation_counterexample:
  "consistentComparator compareCanonical
   \<and> set [lit ''docs/caf'' @ [0x65, 0x301] @ lit ''.md'', lit ''docs/caf'' @ [0xE9] @ lit ''.md'']
     = set [lit ''docs/caf'' @ [0xE9] @ lit ''.md'', lit ''docs/caf'' @ [0x65, 0x301] @ lit ''.md'']
   \<and> buildMarkdownPreviewTable compareCanonical 34443
       [lit ''docs/caf'' @ [0x65, 0x301] @ lit ''.md'', lit ''docs/caf'' @ [0xE9] @ lit ''.md'']
     \<noteq> buildMarkdownPreviewTable compareCanonical 34443
       [lit ''docs/caf'' @ [0xE9] @ lit ''.md'', lit ''docs/caf'' @ [0x65, 0x301] @ lit ''.md'']"
proof -
  have "set [lit ''docs/caf'' @ [0x65, 0x301] @ lit ''.md'', lit ''docs/caf'' @ [0xE9] @ lit ''.md'']
     = set [lit ''docs/caf'' @ [0xE9] @ lit ''.md'', lit ''docs/caf'' @ [0x65, 0x301] @ lit ''.md'']"
    by (simp add: insert_commute)
  moreover have "buildMarkdownPreviewTable compareCanonical 34443
       [lit ''docs/caf'' @ [0x65, 0x301] @ lit ''.md'', lit ''docs/caf'' @ [0xE9] @ lit ''.md'']
     \<noteq> buildMarkdownPreviewTable compareCanonical 34443
       [lit ''docs/caf'' @ [0xE9] @ lit ''.md'', lit ''docs/caf'' @ [0x65, 0x301] @ lit ''.md'']"
    by (simp add: buildMarkdownPreviewTable_def links_def sort_js_def compareCanonical_def
        compareCodeUnits_def tableRow_def toLink_def Let_def lit_def)
  ultimately show ?thesis using consistentComparator_compareCanonical by blast
qed

section \<open>The top-level flow\<close>

text \<open>
  Claim C8. When the fetched pull request has \<open>changedFiles = 0\<close>, the run consists of
  the group start, the warning and the group end: no update call is issued.
\<close>

theorem no_update_when_no_files_changed:
  assumes "pullRequestOf details = Some pr" and "changedFiles pr = 0"
  shows "tryUpdatePullRequestBody cmp ctx (Resolves (Some details)) update =
      [StartGroup (lit ''Update pull '' @ numberToString (number ctx) @ lit '' request body.''),
       Warning (lit ''No files changed at all...''),
       EndGroup]
    \<and> \<not> list_ex isPullsUpdate (tryUpdatePullRequestBody cmp ctx (Resolves (Some details)) update)"
  using assms by (simp add: tryUpdatePullRequestBody_def Let_def)

theorem no_update_when_no_files_changed_witness:
  "pullRequestOf \<lparr>data = Some \<lparr>repository = Some \<lparr>pullRequest = Some
       \<lparr>body = lit ''Empty commit.'', changedFiles = 0, files = \<lparr>edges = []\<rparr>\<rparr>\<rparr>\<rparr>\<rparr>
     = Some \<lparr>body = lit ''Empty commit.'', changedFiles = 0, files = \<lparr>edges = []\<rparr>\<rparr>
   \<and> changedFiles \<lparr>body = lit ''Empty commit.'', changedFiles = 0, files = \<lparr>edges = []\<rparr>\<rparr> = 0
   \<and> tryUpdatePullRequestBody compareCanonical
        \<lparr>owner = lit ''dotnet'', repo = lit ''docs'', number = 7\<rparr>
        (Resolves (Some \<lparr>data = Some \<lparr>repository = Some \<lparr>pullRequest = Some
           \<lparr>body = lit ''Empty commit.'', changedFiles = 0, files = \<lparr>edges = []\<rparr>\<rparr>\<rparr>\<rparr>\<rparr>))
        (\<lambda>b. Resolves (Some 200))
     = [StartGroup (lit ''Update pull 7 request body.''),
        Warning (lit ''No files changed at all...''),
        EndGroup]"
proof -
  let ?pr = "\<lparr>body = lit ''Empty commit.'', changedFiles = 0, files = \<lparr>edges = []\<rparr>\<rparr>"
  let ?details = "\<lparr>data = Some \<lparr>repository = Some \<lparr>pullRequest = Some ?pr\<rparr>\<rparr>\<rparr>"
  have h1: "pullRequestOf ?details = Some ?pr" by (simp add: pullRequestOf_def)
  have h2: "changedFiles ?pr = 0" by simp
  have n: "numberToString 7 = lit ''7''" by (simp add: numberToString.simps lit_def)
  from no_update_when_no_files_changed [OF h1 h2, of compareCanonical
      "\<lparr>owner = lit ''dotnet'', repo = lit ''docs'', number = 7\<rparr>" "\<lambda>b. Resolves (Some 200)"]
  have "tryUpdatePullRequestBody compareCanonical
        \<lparr>owner = lit ''dotnet'', repo = lit ''docs'', number = 7\<rparr>
        (Resolves (Some ?details)) (\<lambda>b. Resolves (Some 200))
     = [StartGroup (lit ''Update pull 7 request body.''),
        Warning (lit ''No files changed at all...''),
        EndGroup]"
    by (simp add: n lit_def)
  with h1 h2 show ?thesis by blast
qed

end
